theory Spec2Isabelle
  imports Main
begin

section \<open>The repository of \<^verbatim>\<open>svcs/repository.py\<close>\<close>

text \<open>
  The class \<^verbatim>\<open>Repository\<close> keeps all of its state on disk, under \<^verbatim>\<open>.repo\<close>:
  \<^verbatim>\<open>staging.json\<close>, \<^verbatim>\<open>branches.json\<close> and one file per commit in \<^verbatim>\<open>commits/\<close>.
  Every method reads the files it needs, and writes back what it changed. The model is
  a record of these files and of the working tree, passed to every operation and returned
  by it; an exception is a value \<open>Inl e\<close>, returned with the state the files are in when
  it is raised.

  A JSON object is a map from its keys. A JSON value of \<^verbatim>\<open>branches.json\<close> is a string
  or \<^verbatim>\<open>null\<close>: a \<open>string option\<close>.
\<close>

type_synonym path = string
type_synonym digest = string

text \<open>An entry of \<^verbatim>\<open>staging.json\<close>: \<^verbatim>\<open>{'hash': ..., 'timestamp': ...}\<close>.\<close>

record staging_entry =
  hash :: digest
  timestamp :: string

text \<open>A commit file: the dictionary that \<^verbatim>\<open>commit\<close> builds.\<close>

record commit_obj =
  message :: string
  author :: string
  created :: string
  parent :: "string option"
  changes :: "path \<rightharpoonup> staging_entry"

text \<open>
  The working tree: what is at a path below the root (outside \<^verbatim>\<open>.repo\<close>). A regular
  file is known to the repository by the SHA-256 digest of its bytes only
  (\<^verbatim>\<open>_hash_file\<close>).
\<close>

datatype node = Directory | RegularFile digest

record repo =
  repo_exists :: bool
  staging :: "path \<rightharpoonup> staging_entry"
  commits :: "string \<rightharpoonup> commit_obj"
  branches :: "string \<rightharpoonup> string option"
  tree :: "path \<rightharpoonup> node"
  ignored :: "path \<Rightarrow> bool"

text \<open>
  \<open>repo_exists\<close> is \<^verbatim>\<open>repo_path.exists()\<close>; \<open>commits\<close> maps the stem of a file of
  \<^verbatim>\<open>commits/\<close> to its content; \<open>ignored\<close> is \<^verbatim>\<open>_is_ignored\<close> under the current
  \<^verbatim>\<open>.svcignore\<close> (its glob matching is \<^verbatim>\<open>pathlib\<close>'s).

  Every failure of the source is \<^verbatim>\<open>raise Exception(message)\<close>; the constructors below are
  named after the specification's taxonomy, one per message. \<open>KeyError\<close> is Python's own,
  raised by \<^verbatim>\<open>branches[k]\<close> for a key that is not there; \<open>SubscriptError k\<close> is
  Python's \<^verbatim>\<open>KeyError\<close> or \<^verbatim>\<open>TypeError\<close> for \<^verbatim>\<open>doc[k]\<close> on a JSON document that is
  not a commit record.
\<close>

datatype error =
    AlreadyInitialized
  | NotInitialized
  | FileNotFound path
  | NotAFile path
  | IgnoredFile path
  | EmptyStagingError
  | CommitNotFoundError string
  | BranchExistsError string
  | BranchNotFoundError string
  | SelfMergeError
  | DirtyWorkingTreeError string
  | NoCommonAncestorError
  | KeyError "string option"
  | SubscriptError string

subsection \<open>init\<close>

text \<open>
  \<^verbatim>\<open>init\<close> creates the directory with an empty staging table, an empty commits
  directory and the branch table \<^verbatim>\<open>{"main": null, "current": "main"}\<close>, and writes a
  default \<^verbatim>\<open>.svcignore\<close> when there is none. \<open>ign_digest\<close> is the digest of that
  default file and \<open>ign_rule\<close> the paths its patterns match.
\<close>

definition init :: "digest \<Rightarrow> (path \<Rightarrow> bool) \<Rightarrow> repo \<Rightarrow> (error + unit) \<times> repo" where
  "init ign_digest ign_rule st =
     (if repo_exists st then (Inl AlreadyInitialized, st)
      else (Inr (),
        st\<lparr>repo_exists := True,
           staging := Map.empty,
           commits := Map.empty,
           branches := [''main'' \<mapsto> None, ''current'' \<mapsto> Some ''main''],
           tree := (if tree st ''.svcignore'' = None
                    then (tree st)(''.svcignore'' \<mapsto> RegularFile ign_digest)
                    else tree st),
           ignored := (if tree st ''.svcignore'' = None then ign_rule else ignored st)\<rparr>))"

subsection \<open>get_status\<close>

record status =
  staged :: "path set"
  modified :: "path set"
  untracked :: "path set"

datatype status_kind = Staged | Modified | Untracked

text \<open>The body of the loop over \<^verbatim>\<open>root_path.rglob('*')\<close>, for one path.\<close>

definition status_of :: "repo \<Rightarrow> path \<Rightarrow> status_kind option" where
  "status_of st p =
     (if ignored st p then None
      else case tree st p of
        Some (RegularFile current_hash) \<Rightarrow>
          (case staging st p of
             Some e \<Rightarrow> if current_hash \<noteq> hash e then Some Modified else Some Staged
           | None \<Rightarrow> Some Untracked)
      | _ \<Rightarrow> None)"

definition get_status :: "repo \<Rightarrow> error + status" where
  "get_status st =
     (if \<not> repo_exists st then Inl NotInitialized
      else Inr \<lparr>staged = {p \<in> dom (tree st). status_of st p = Some Staged},
               modified = {p \<in> dom (tree st). status_of st p = Some Modified},
               untracked = {p \<in> dom (tree st). status_of st p = Some Untracked}\<rparr>)"

subsection \<open>stage_file\<close>

text \<open>
  \<open>file_path\<close> is the path relative to the root, as \<^verbatim>\<open>relative_to\<close> gives it; \<open>now\<close> is
  \<^verbatim>\<open>datetime.now().isoformat()\<close>.
\<close>

definition stage_file :: "string \<Rightarrow> path \<Rightarrow> repo \<Rightarrow> (error + unit) \<times> repo" where
  "stage_file now file_path st =
     (if \<not> repo_exists st then (Inl NotInitialized, st)
      else case tree st file_path of
        None \<Rightarrow> (Inl (FileNotFound file_path), st)
      | Some Directory \<Rightarrow> (Inl (NotAFile file_path), st)
      | Some (RegularFile file_hash) \<Rightarrow>
          if ignored st file_path then (Inl (IgnoredFile file_path), st)
          else (Inr (),
            st\<lparr>staging := (staging st)(file_path \<mapsto> \<lparr>hash = file_hash, timestamp = now\<rparr>)\<rparr>))"

subsection \<open>commit and get_commit\<close>

text \<open>\<^verbatim>\<open>author or os.environ.get('USER', 'unknown')\<close>: an empty string is false.\<close>

definition author_or :: "string option \<Rightarrow> string option \<Rightarrow> string" where
  "author_or a user =
     (case a of
        Some s \<Rightarrow> if s \<noteq> [] then s else (case user of Some u \<Rightarrow> u | None \<Rightarrow> ''unknown'')
      | None \<Rightarrow> (case user of Some u \<Rightarrow> u | None \<Rightarrow> ''unknown''))"

text \<open>
  \<open>H\<close> is \<^verbatim>\<open>hashlib.sha256(json.dumps(commit, sort_keys=True).encode()).hexdigest()\<close>,
  \<open>user\<close> the environment's \<^verbatim>\<open>USER\<close>. Every \<^verbatim>\<open>raise\<close> comes before the first write.
  A digest is 64 hexadecimal digits, so the commit file is written into the commits
  directory: the field \<open>commits\<close>.
\<close>

definition commit ::
  "(commit_obj \<Rightarrow> string) \<Rightarrow> string \<Rightarrow> string option \<Rightarrow> string \<Rightarrow> string option \<Rightarrow> repo
    \<Rightarrow> (error + string) \<times> repo" where
  "commit H now user msg a st =
     (if \<not> repo_exists st then (Inl NotInitialized, st)
      else if staging st = Map.empty then (Inl EmptyStagingError, st)
      else case branches st ''current'' of
        None \<Rightarrow> (Inl (KeyError (Some ''current'')), st)
      | Some None \<Rightarrow> (Inl (KeyError None), st)
      | Some (Some current_branch) \<Rightarrow>
          (case branches st current_branch of
             None \<Rightarrow> (Inl (KeyError (Some current_branch)), st)
           | Some parent_commit \<Rightarrow>
               (let c = \<lparr>message = msg, author = author_or a user, created = now,
                         parent = parent_commit, changes = staging st\<rparr>;
                    commit_hash = H c
                in (Inr commit_hash,
                    st\<lparr>commits := (commits st)(commit_hash \<mapsto> c),
                       branches := (branches st)(current_branch \<mapsto> Some commit_hash),
                       staging := Map.empty\<rparr>))))"

text \<open>
  \<^verbatim>\<open>get_commit(commit_hash)\<close> opens the path \<^verbatim>\<open>commits/f"{commit_hash}.json"\<close>; for
  \<^verbatim>\<open>None\<close> the f-string gives \<^verbatim>\<open>None.json\<close>. A name without a separator is a file
  of the commits directory: the field \<open>commits\<close>. A name with a \<open>/\<close> is a path that enters a
  subdirectory or leaves the directory (\<^verbatim>\<open>../staging\<close> is the staging table), and
  \<^verbatim>\<open>get_commit\<close> returns whatever JSON document is there. The model does not follow the
  files outside the commits directory: what such a path holds at the time of the call is the
  parameter \<open>disk\<close>, \<open>None\<close> when no file is there. A document is a commit record, or
  it is another JSON document, taken to have neither entry: \<^verbatim>\<open>doc['parent']\<close> and
  \<^verbatim>\<open>doc['changes']\<close> raise. (A document with an entry of another shape, a
  \<^verbatim>\<open>parent\<close> that is no string, is not in the model.)
\<close>

datatype json_doc = CommitDoc commit_obj | OtherDoc

type_synonym disk = "string \<Rightarrow> json_doc option"

definition fmt :: "string option \<Rightarrow> string" where
  "fmt h = (case h of None \<Rightarrow> ''None'' | Some s \<Rightarrow> s)"

definition is_path :: "string \<Rightarrow> bool" where
  "is_path name = (CHR ''/'' \<in> set name)"

definition get_commit :: "disk \<Rightarrow> repo \<Rightarrow> string option \<Rightarrow> error + json_doc" where
  "get_commit disk st commit_hash =
     (case (if is_path (fmt commit_hash) then disk (fmt commit_hash)
            else map_option CommitDoc (commits st (fmt commit_hash))) of
        None \<Rightarrow> Inl (CommitNotFoundError (fmt commit_hash))
      | Some doc \<Rightarrow> Inr doc)"

text \<open>\<^verbatim>\<open>commit['parent']\<close> and \<^verbatim>\<open>commit['changes']\<close>, on what \<^verbatim>\<open>get_commit\<close> returned.\<close>

definition parent_of :: "json_doc \<Rightarrow> error + string option" where
  "parent_of doc = (case doc of CommitDoc c \<Rightarrow> Inr (parent c) | OtherDoc \<Rightarrow> Inl (SubscriptError ''parent''))"

definition changes_of :: "json_doc \<Rightarrow> error + (path \<rightharpoonup> staging_entry)" where
  "changes_of doc = (case doc of CommitDoc c \<Rightarrow> Inr (changes c) | OtherDoc \<Rightarrow> Inl (SubscriptError ''changes''))"

subsection \<open>Branches\<close>

definition create_branch :: "string \<Rightarrow> repo \<Rightarrow> (error + unit) \<times> repo" where
  "create_branch branch_name st =
     (if \<not> repo_exists st then (Inl NotInitialized, st)
      else if branch_name \<in> dom (branches st) then (Inl (BranchExistsError branch_name), st)
      else case branches st ''current'' of
        None \<Rightarrow> (Inl (KeyError (Some ''current'')), st)
      | Some None \<Rightarrow> (Inl (KeyError None), st)
      | Some (Some current_branch) \<Rightarrow>
          (case branches st current_branch of
             None \<Rightarrow> (Inl (KeyError (Some current_branch)), st)
           | Some head \<Rightarrow> (Inr (), st\<lparr>branches := (branches st)(branch_name \<mapsto> head)\<rparr>)))"

definition list_branches :: "repo \<Rightarrow> error + (string \<rightharpoonup> string option)" where
  "list_branches st =
     (if \<not> repo_exists st then Inl NotInitialized
      else Inr (\<lambda>k. if k \<noteq> ''current'' then branches st k else None))"

definition switch_branch :: "string \<Rightarrow> repo \<Rightarrow> (error + unit) \<times> repo" where
  "switch_branch branch_name st =
     (if \<not> repo_exists st then (Inl NotInitialized, st)
      else if branch_name \<notin> dom (branches st) then (Inl (BranchNotFoundError branch_name), st)
      else case get_status st of
        Inl e \<Rightarrow> (Inl e, st)
      | Inr s \<Rightarrow>
          if modified s \<noteq> {} \<or> staged s \<noteq> {}
          then (Inl (DirtyWorkingTreeError ''Cannot switch branches with uncommitted changes''), st)
          else (Inr (), st\<lparr>branches := (branches st)(''current'' \<mapsto> Some branch_name)\<rparr>))"

definition get_current_branch :: "repo \<Rightarrow> error + string option" where
  "get_current_branch st =
     (if \<not> repo_exists st then Inl NotInitialized
      else case branches st ''current'' of
        None \<Rightarrow> Inl (KeyError (Some ''current''))
      | Some v \<Rightarrow> Inr v)"

subsection \<open>The ancestor chain\<close>

text \<open>
  \<^verbatim>\<open>_get_commit_history\<close> is a \<^verbatim>\<open>while current:\<close> loop that appends to \<open>history\<close> and
  follows \<^verbatim>\<open>commit['parent']\<close>. Nothing bounds it, so the model is a partial function:
  \<open>None\<close> is a loop that never ends. \<^verbatim>\<open>None\<close> and the empty string end the loop.
\<close>

text \<open>Lines 361 and 362: \<^verbatim>\<open>self.get_commit(current)\<close> and then \<^verbatim>\<open>commit['parent']\<close>.\<close>

definition next_commit :: "disk \<Rightarrow> repo \<Rightarrow> string \<Rightarrow> error + string option" where
  "next_commit disk st h =
     (case get_commit disk st (Some h) of Inl e \<Rightarrow> Inl e | Inr doc \<Rightarrow> parent_of doc)"

text \<open>The loop, over the step \<open>next\<close> that lines 361 and 362 make.\<close>

partial_function (option) history_loop ::
  "(string \<Rightarrow> error + string option) \<Rightarrow> string list \<Rightarrow> string option
    \<Rightarrow> (error + string list) option" where
  "history_loop next history current =
     (case current of
        None \<Rightarrow> Some (Inr history)
      | Some h \<Rightarrow>
          if h = [] then Some (Inr history)
          else (case next h of
                  Inl e \<Rightarrow> Some (Inl e)
                | Inr p \<Rightarrow> history_loop next (history @ [h]) p))"

definition get_commit_history ::
  "disk \<Rightarrow> repo \<Rightarrow> string option \<Rightarrow> (error + string list) option" where
  "get_commit_history disk st commit_hash = history_loop (next_commit disk st) [] commit_hash"

subsection \<open>merge_branch\<close>

record merge_result =
  conflicts :: "path set"
  merged :: "path set"

text \<open>Lines 308 to 313: the first commit of the source's history that the target's has.\<close>

definition find_common_ancestor :: "string list \<Rightarrow> string list \<Rightarrow> string option" where
  "find_common_ancestor source_history target_history =
     List.find (\<lambda>c. c \<in> set target_history) source_history"

text \<open>\<^verbatim>\<open>files.get(file_path, {}).get('hash')\<close>\<close>

definition digest_at :: "(path \<rightharpoonup> staging_entry) \<Rightarrow> path \<Rightarrow> digest option" where
  "digest_at files file_path = map_option hash (files file_path)"

definition is_conflict ::
  "(path \<rightharpoonup> staging_entry) \<Rightarrow> (path \<rightharpoonup> staging_entry) \<Rightarrow> (path \<rightharpoonup> staging_entry)
    \<Rightarrow> path \<Rightarrow> bool" where
  "is_conflict source_files target_files ancestor_files file_path =
     (digest_at source_files file_path \<noteq> digest_at ancestor_files file_path \<and>
      digest_at target_files file_path \<noteq> digest_at ancestor_files file_path \<and>
      digest_at source_files file_path \<noteq> digest_at target_files file_path)"

text \<open>Lines 319 to 343. The source iterates over a \<^verbatim>\<open>set\<close>: the lists it builds have no
  order of their own, and are sets here.\<close>

definition compare_files ::
  "(path \<rightharpoonup> staging_entry) \<Rightarrow> (path \<rightharpoonup> staging_entry) \<Rightarrow> (path \<rightharpoonup> staging_entry)
    \<Rightarrow> merge_result" where
  "compare_files source_files target_files ancestor_files =
     \<lparr>conflicts = {p \<in> dom source_files \<union> dom target_files.
                     is_conflict source_files target_files ancestor_files p},
      merged = {p \<in> dom source_files \<union> dom target_files.
                  \<not> is_conflict source_files target_files ancestor_files p}\<rparr>"

text \<open>
  Lines 301 to 345, what \<^verbatim>\<open>merge_branch\<close> does once its checks have passed:
  \<open>source_head\<close> is \<^verbatim>\<open>branches[branch_name]\<close> and \<open>current_branch\<close> is
  \<^verbatim>\<open>branches['current']\<close>. It reads and writes nothing but its result.
\<close>

definition merge_analysis ::
  "disk \<Rightarrow> repo \<Rightarrow> string option \<Rightarrow> string option \<Rightarrow> (error + merge_result) option" where
  "merge_analysis disk st source_head current_branch =
     (case get_commit disk st source_head of
        Inl e \<Rightarrow> Some (Inl e)
      | Inr source_commit \<Rightarrow>
     (case (case current_branch of None \<Rightarrow> None | Some b \<Rightarrow> branches st b) of
        None \<Rightarrow> Some (Inl (KeyError current_branch))
      | Some target_head \<Rightarrow>
     (case get_commit disk st target_head of
        Inl e \<Rightarrow> Some (Inl e)
      | Inr target_commit \<Rightarrow>
     (case get_commit_history disk st source_head of
        None \<Rightarrow> None
      | Some (Inl e) \<Rightarrow> Some (Inl e)
      | Some (Inr source_history) \<Rightarrow>
     (case get_commit_history disk st target_head of
        None \<Rightarrow> None
      | Some (Inl e) \<Rightarrow> Some (Inl e)
      | Some (Inr target_history) \<Rightarrow>
     (case find_common_ancestor source_history target_history of
        None \<Rightarrow> Some (Inl NoCommonAncestorError)
      | Some common_ancestor \<Rightarrow>
     (case changes_of source_commit of
        Inl e \<Rightarrow> Some (Inl e)
      | Inr source_files \<Rightarrow>
     (case changes_of target_commit of
        Inl e \<Rightarrow> Some (Inl e)
      | Inr target_files \<Rightarrow>
     (case get_commit disk st (Some common_ancestor) of
        Inl e \<Rightarrow> Some (Inl e)
      | Inr ancestor_commit \<Rightarrow>
     (case changes_of ancestor_commit of
        Inl e \<Rightarrow> Some (Inl e)
      | Inr ancestor_files \<Rightarrow>
          Some (Inr (compare_files source_files target_files ancestor_files))))))))))))"

text \<open>Lines 285 to 299, the checks, and then the analysis; the state is returned as it is,
  since no line of \<^verbatim>\<open>merge_branch\<close> writes a file.\<close>

definition merge_branch ::
  "disk \<Rightarrow> string \<Rightarrow> repo \<Rightarrow> ((error + merge_result) \<times> repo) option" where
  "merge_branch disk branch_name st =
     (if \<not> repo_exists st then Some (Inl NotInitialized, st)
      else case branches st branch_name of
        None \<Rightarrow> Some (Inl (BranchNotFoundError branch_name), st)
      | Some source_head \<Rightarrow>
     (case branches st ''current'' of
        None \<Rightarrow> Some (Inl (KeyError (Some ''current'')), st)
      | Some current_branch \<Rightarrow>
          if Some branch_name = current_branch then Some (Inl SelfMergeError, st)
          else (case get_status st of
                  Inl e \<Rightarrow> Some (Inl e, st)
                | Inr s \<Rightarrow>
                    if modified s \<noteq> {} \<or> staged s \<noteq> {}
                    then Some (Inl (DirtyWorkingTreeError ''Cannot merge with uncommitted changes''), st)
                    else map_option (\<lambda>r. (r, st))
                           (merge_analysis disk st source_head current_branch))))"

subsection \<open>Repositories\<close>

text \<open>
  A branch is an entry of \<^verbatim>\<open>list_branches\<close>: a key of the branch table other than the
  marker \<^verbatim>\<open>'current'\<close>. The invariant of the data model: the marker holds the name of a
  branch.
\<close>

definition is_branch :: "repo \<Rightarrow> string \<Rightarrow> bool" where
  "is_branch st n = (case list_branches st of Inl e \<Rightarrow> False | Inr bs \<Rightarrow> bs n \<noteq> None)"

definition current_ok :: "repo \<Rightarrow> bool" where
  "current_ok st =
     (case branches st ''current'' of Some (Some n) \<Rightarrow> is_branch st n | _ \<Rightarrow> False)"

text \<open>The test of \<^verbatim>\<open>switch_branch\<close> and \<^verbatim>\<open>merge_branch\<close> for uncommitted changes.\<close>

definition uncommitted :: "repo \<Rightarrow> bool" where
  "uncommitted st =
     (case get_status st of Inl e \<Rightarrow> False | Inr s \<Rightarrow> modified s \<noteq> {} \<or> staged s \<noteq> {})"

text \<open>
  The states of a run: any directory that is not a repository yet, then \<^verbatim>\<open>init\<close> and
  the operations, in any order and with any arguments, and between them any change of the
  working tree by its user. \<^verbatim>\<open>list_branches\<close>, \<^verbatim>\<open>get_current_branch\<close>,
  \<^verbatim>\<open>get_status\<close> and \<^verbatim>\<open>get_commit\<close> only read. A commit's name is a SHA-256
  digest in hexadecimal: 64 characters. A merge may find any files outside the commits
  directory.
\<close>

inductive reachable :: "repo \<Rightarrow> bool" where
  r_start: "\<not> repo_exists st \<Longrightarrow> reachable st"
| r_init: "reachable st \<Longrightarrow> reachable (snd (init d r st))"
| r_edit: "reachable st \<Longrightarrow> reachable (st\<lparr>tree := t, ignored := i\<rparr>)"
| r_stage: "reachable st \<Longrightarrow> reachable (snd (stage_file now p st))"
| r_commit: "reachable st \<Longrightarrow> (\<And>c. length (H c) = 64)
    \<Longrightarrow> reachable (snd (commit H now user msg a st))"
| r_create: "reachable st \<Longrightarrow> reachable (snd (create_branch n st))"
| r_switch: "reachable st \<Longrightarrow> reachable (snd (switch_branch n st))"
| r_merge: "reachable st \<Longrightarrow> merge_branch disk n st = Some (res, st') \<Longrightarrow> reachable st'"

text \<open>The parent links that the loop of \<^verbatim>\<open>_get_commit_history\<close> follows, as pairs of a
  parent and its child.\<close>

definition parent_rel :: "disk \<Rightarrow> repo \<Rightarrow> (string \<times> string) set" where
  "parent_rel disk st =
     {(p, h). \<exists>c. h \<noteq> [] \<and> get_commit disk st (Some h) = Inr (CommitDoc c) \<and> parent c = Some p
                \<and> p \<noteq> []}"

text \<open>The start \<open>h\<close> leads into a cycle of parent links.\<close>

definition reaches_cycle :: "disk \<Rightarrow> repo \<Rightarrow> string \<Rightarrow> bool" where
  "reaches_cycle disk st h =
     (\<exists>x. (x, h) \<in> (parent_rel disk st)\<^sup>* \<and> (x, x) \<in> (parent_rel disk st)\<^sup>+)"

subsection \<open>Example repositories\<close>

text \<open>An empty directory, and the repository \<^verbatim>\<open>init\<close> makes of it.\<close>

definition empty_dir :: repo where
  "empty_dir = \<lparr>repo_exists = False, staging = Map.empty, commits = Map.empty,
     branches = Map.empty, tree = Map.empty, ignored = (\<lambda>p. False)\<rparr>"

definition fresh_repo :: repo where
  "fresh_repo = snd (init ''d0'' (\<lambda>p. False) empty_dir)"

text \<open>
  The scenario of the specification: \<open>''C1''\<close> on \<open>main\<close> stages \<open>f.txt\<close> with digest
  \<open>H1\<close>; \<open>dev\<close> is created there and commits \<open>''C2''\<close> with \<open>H2\<close>; \<open>main\<close> commits
  \<open>''C3''\<close> with \<open>H3\<close>. The names of the commits stand for their digests.
\<close>

definition file_entry :: "digest \<Rightarrow> path \<rightharpoonup> staging_entry" where
  "file_entry d = [''f.txt'' \<mapsto> \<lparr>hash = d, timestamp = ''t''\<rparr>]"

definition forked_repo :: repo where
  "forked_repo =
     \<lparr>repo_exists = True,
      staging = Map.empty,
      commits =
        [''C1'' \<mapsto> \<lparr>message = ''first'', author = ''u'', created = ''t1'', parent = None,
                    changes = file_entry ''H1''\<rparr>,
         ''C2'' \<mapsto> \<lparr>message = ''second'', author = ''u'', created = ''t2'', parent = Some ''C1'',
                    changes = file_entry ''H2''\<rparr>,
         ''C3'' \<mapsto> \<lparr>message = ''third'', author = ''u'', created = ''t3'', parent = Some ''C1'',
                    changes = file_entry ''H3''\<rparr>],
      branches = [''main'' \<mapsto> Some ''C3'', ''dev'' \<mapsto> Some ''C2'', ''current'' \<mapsto> Some ''main''],
      tree = [''f.txt'' \<mapsto> RegularFile ''H3''],
      ignored = (\<lambda>p. False)\<rparr>"

text \<open>A file staged in a fresh repository.\<close>

definition staged_repo :: repo where
  "staged_repo =
     snd (stage_file ''t'' ''f.txt'' (fresh_repo\<lparr>tree := [''f.txt'' \<mapsto> RegularFile ''H1'']\<rparr>))"

text \<open>A stand-in for the digest of a commit, for the examples.\<close>

definition toy_digest :: "commit_obj \<Rightarrow> string" where
  "toy_digest c = message c"


text \<open>A commit store that names a commit as its own parent: no run of \<^verbatim>\<open>commit\<close> writes
  one, a damaged store can hold one.\<close>

definition looped_repo :: repo where
  "looped_repo = fresh_repo\<lparr>commits := [''X'' \<mapsto> \<lparr>message = ''m'', author = ''u'', created = ''t'',
      parent = Some ''X'', changes = Map.empty\<rparr>]\<rparr>"

text \<open>A second branch in a fresh repository, the same with a file staged, and a fresh
  repository after \<^verbatim>\<open>switch_branch("current")\<close>.\<close>

definition two_branch_repo :: repo where
  "two_branch_repo = snd (create_branch ''dev'' fresh_repo)"

definition dirty_repo :: repo where
  "dirty_repo = snd (create_branch ''dev'' staged_repo)"

definition broken_repo :: repo where
  "broken_repo = snd (switch_branch ''current'' fresh_repo)"

text \<open>A store whose commit \<open>C2\<close> names a parent that has no file.\<close>

definition dangling_repo :: repo where
  "dangling_repo = fresh_repo\<lparr>commits := [''C2'' \<mapsto> \<lparr>message = ''m'', author = ''u'',
      created = ''t'', parent = Some ''C9'', changes = Map.empty\<rparr>]\<rparr>"

text \<open>No file outside the commits directory, for the examples.\<close>

definition no_disk :: disk where
  "no_disk = (\<lambda>name. None)"

text \<open>A digest function with values of 64 characters, for the examples.\<close>

definition zeros :: string where
  "zeros = replicate 64 (CHR ''0'')"

definition zero_digest :: "commit_obj \<Rightarrow> string" where
  "zero_digest c = zeros"

text \<open>
  After \<^verbatim>\<open>switch_branch("current")\<close> in a fresh repository: a file is staged and
  committed, and staged again.
\<close>

definition restaged_repo :: repo where
  "restaged_repo =
     snd (stage_file ''t3'' ''f.txt''
       (snd (commit zero_digest ''t2'' None ''first'' None
         (snd (stage_file ''t1'' ''f.txt''
           (broken_repo\<lparr>tree := [''f.txt'' \<mapsto> RegularFile ''H1'']\<rparr>))))))"

subsection \<open>What a traversal meets, as relations\<close>

text \<open>
  \<open>chain disk st h hs\<close>: following the parent links from \<open>h\<close> ends, at \<^verbatim>\<open>None\<close> or at
  an empty name, and \<open>hs\<close> are the commits on the way, \<open>h\<close> first and each one followed by
  its parent.

  \<open>breaks disk st h hs e\<close>: following the parent links from \<open>h\<close> goes through \<open>hs\<close>, \<open>h\<close>
  first and each one followed by its parent, and fails at the last of them with \<open>e\<close>: no file
  has that name, or the file is no commit record.
\<close>

inductive chain :: "disk \<Rightarrow> repo \<Rightarrow> string option \<Rightarrow> string list \<Rightarrow> bool" where
  chain_None: "chain disk st None []"
| chain_empty: "chain disk st (Some []) []"
| chain_step: "h \<noteq> [] \<Longrightarrow> get_commit disk st (Some h) = Inr (CommitDoc c)
    \<Longrightarrow> chain disk st (parent c) ys \<Longrightarrow> chain disk st (Some h) (h # ys)"

inductive_cases chain_NilE: "chain disk st cur []"


inductive breaks :: "disk \<Rightarrow> repo \<Rightarrow> string option \<Rightarrow> string list \<Rightarrow> error \<Rightarrow> bool" where
  breaks_missing: "h \<noteq> [] \<Longrightarrow> get_commit disk st (Some h) = Inl e
    \<Longrightarrow> breaks disk st (Some h) [h] e"
| breaks_other: "h \<noteq> [] \<Longrightarrow> get_commit disk st (Some h) = Inr OtherDoc
    \<Longrightarrow> breaks disk st (Some h) [h] (SubscriptError ''parent'')"
| breaks_step: "h \<noteq> [] \<Longrightarrow> get_commit disk st (Some h) = Inr (CommitDoc c)
    \<Longrightarrow> breaks disk st (parent c) ys e \<Longrightarrow> breaks disk st (Some h) (h # ys) e"

section \<open>Facts about the example repositories\<close>

lemma fresh_repo_simps:
  "repo_exists fresh_repo" "staging fresh_repo = Map.empty" "commits fresh_repo = Map.empty"
  "branches fresh_repo = [''main'' \<mapsto> None, ''current'' \<mapsto> Some ''main'']"
  by (simp_all add: fresh_repo_def init_def empty_dir_def)

lemma staged_repo_simps:
  "repo_exists staged_repo"
  "staging staged_repo = [''f.txt'' \<mapsto> \<lparr>hash = ''H1'', timestamp = ''t''\<rparr>]"
  "commits staged_repo = Map.empty"
  "branches staged_repo = [''main'' \<mapsto> None, ''current'' \<mapsto> Some ''main'']"
  "tree staged_repo = [''f.txt'' \<mapsto> RegularFile ''H1'']"
  "ignored staged_repo = (\<lambda>p. False)"
  by (simp_all add: staged_repo_def stage_file_def fresh_repo_def init_def empty_dir_def)

lemma fresh_repo_status:
  "get_status fresh_repo = Inr \<lparr>staged = {}, modified = {}, untracked = {''.svcignore''}\<rparr>"
  by (auto simp: get_status_def status_of_def fresh_repo_def init_def empty_dir_def
      split: if_splits)

lemma is_branch_iff:
  "is_branch st n \<longleftrightarrow> repo_exists st \<and> n \<noteq> ''current'' \<and> n \<in> dom (branches st)"
  by (auto simp: is_branch_def list_branches_def)

lemma current_ok_iff:
  "current_ok st \<longleftrightarrow>
     repo_exists st \<and> (\<exists>n. branches st ''current'' = Some (Some n) \<and> n \<noteq> ''current''
        \<and> n \<in> dom (branches st))"
  by (auto simp: current_ok_def is_branch_iff split: option.splits)

lemma forked_repo_simps:
  "repo_exists forked_repo" "staging forked_repo = Map.empty"
  "branches forked_repo = [''main'' \<mapsto> Some ''C3'', ''dev'' \<mapsto> Some ''C2'', ''current'' \<mapsto> Some ''main'']"
  "commits forked_repo ''C1'' = Some \<lparr>message = ''first'', author = ''u'', created = ''t1'', parent = None,
                    changes = file_entry ''H1''\<rparr>"
  "commits forked_repo ''C2'' = Some \<lparr>message = ''second'', author = ''u'', created = ''t2'', parent = Some ''C1'',
                    changes = file_entry ''H2''\<rparr>"
  "commits forked_repo ''C3'' = Some \<lparr>message = ''third'', author = ''u'', created = ''t3'', parent = Some ''C1'',
                    changes = file_entry ''H3''\<rparr>"
  by (simp_all add: forked_repo_def)


lemma two_branch_repo_simps:
  "repo_exists two_branch_repo" "staging two_branch_repo = Map.empty"
  "commits two_branch_repo = Map.empty"
  "branches two_branch_repo = [''main'' \<mapsto> None, ''current'' \<mapsto> Some ''main'', ''dev'' \<mapsto> None]"
  by (simp_all add: two_branch_repo_def create_branch_def fresh_repo_simps)

lemma dirty_repo_simps:
  "repo_exists dirty_repo"
  "staging dirty_repo = [''f.txt'' \<mapsto> \<lparr>hash = ''H1'', timestamp = ''t''\<rparr>]"
  "commits dirty_repo = Map.empty"
  "branches dirty_repo = [''main'' \<mapsto> None, ''current'' \<mapsto> Some ''main'', ''dev'' \<mapsto> None]"
  "tree dirty_repo = [''f.txt'' \<mapsto> RegularFile ''H1'']"
  "ignored dirty_repo = (\<lambda>p. False)"
  by (simp_all add: dirty_repo_def create_branch_def staged_repo_simps)

section \<open>The working tree's status and the checks of merge_branch\<close>

lemma status_of_dom: "status_of st p = Some k \<Longrightarrow> p \<in> dom (tree st)"
  by (auto simp: status_of_def split: option.splits if_splits)

lemma status_of_tracked:
  "status_of st p = Some Modified \<or> status_of st p = Some Staged \<longleftrightarrow>
     (\<exists>e d. staging st p = Some e \<and> tree st p = Some (RegularFile d) \<and> \<not> ignored st p)"
  by (auto simp: status_of_def split: option.splits node.splits)

lemma uncommitted_iff:
  "uncommitted st \<longleftrightarrow>
     repo_exists st \<and>
     (\<exists>p e d. staging st p = Some e \<and> tree st p = Some (RegularFile d) \<and> \<not> ignored st p)"
proof (cases "repo_exists st")
  case False
  then show ?thesis by (simp add: uncommitted_def get_status_def)
next
  case True
  have sets: "{p \<in> dom (tree st). status_of st p = Some k} = {p. status_of st p = Some k}" for k
    using status_of_dom by blast
  have "uncommitted st \<longleftrightarrow>
          (\<exists>p. status_of st p = Some Modified \<or> status_of st p = Some Staged)"
    using True unfolding uncommitted_def get_status_def sets by auto
  also have "\<dots> \<longleftrightarrow>
      (\<exists>p e d. staging st p = Some e \<and> tree st p = Some (RegularFile d) \<and> \<not> ignored st p)"
    unfolding status_of_tracked by blast
  finally show ?thesis using True by simp
qed

lemma clean_empty_staging: "staging st = Map.empty \<Longrightarrow> \<not> uncommitted st"
  by (simp add: uncommitted_iff)

text \<open>The checks of \<^verbatim>\<open>merge_branch\<close>, in the order of the source, with the test of the
  source for an existing branch: a key of the branch table.\<close>

lemma merge_branch_check_order:
  "merge_branch disk n st =
     (if \<not> repo_exists st then Some (Inl NotInitialized, st)
      else if n \<notin> dom (branches st) then Some (Inl (BranchNotFoundError n), st)
      else if ''current'' \<notin> dom (branches st) then Some (Inl (KeyError (Some ''current'')), st)
      else if branches st ''current'' = Some (Some n) then Some (Inl SelfMergeError, st)
      else if uncommitted st
        then Some (Inl (DirtyWorkingTreeError ''Cannot merge with uncommitted changes''), st)
      else map_option (\<lambda>r. (r, st))
             (merge_analysis disk st (the (branches st n)) (the (branches st ''current''))))"
  by (auto simp: merge_branch_def uncommitted_def get_status_def split: option.splits)

section \<open>Committing\<close>

text \<open>
  Claim C7. In an initialized repository whose staging table is empty, \<^verbatim>\<open>commit\<close> fails
  with the empty-staging error (\<^verbatim>\<open>No changes staged for commit\<close>), and the state it
  leaves, staging table, branch table and commit store included, is the state it found.
\<close>

theorem commit_empty_staging:
  "repo_exists st \<Longrightarrow> staging st = Map.empty \<Longrightarrow>
     commit H now user msg a st = (Inl EmptyStagingError, st)"
  by (simp add: commit_def)

theorem commit_empty_staging_witness:
  "repo_exists fresh_repo \<and> staging fresh_repo = Map.empty \<and>
   commit toy_digest ''t'' None ''m'' None fresh_repo = (Inl EmptyStagingError, fresh_repo)"
  using commit_empty_staging [of fresh_repo toy_digest "''t''" None "''m''" None]
  by (simp add: fresh_repo_simps)

text \<open>
  Where the marker names a branch \<open>b\<close> and the staging table is not empty, \<^verbatim>\<open>commit\<close>
  succeeds and returns an id \<open>c\<close>; \<^verbatim>\<open>get_commit(c)\<close> then gives a record whose changes
  are the staging table as it was and whose parent is the head \<open>b\<close> had; the staging table
  is empty, \<open>b\<close> is still the current branch and its head is \<open>c\<close>. A digest has no
  separator.
\<close>

lemma commit_roundtrip:
  assumes "repo_exists st" and "staging st \<noteq> Map.empty"
    and "branches st ''current'' = Some (Some b)" and "is_branch st b"
    and "\<And>c. \<not> is_path (H c)"
  shows "\<exists>c st'. commit H now user msg a st = (Inr c, st')
           \<and> (\<exists>r. get_commit disk st' (Some c) = Inr (CommitDoc r) \<and> changes r = staging st
                  \<and> Some (parent r) = branches st b)
           \<and> staging st' = Map.empty
           \<and> branches st' ''current'' = Some (Some b)
           \<and> branches st' b = Some (Some c)"
proof -
  from assms(4) have b: "b \<noteq> ''current''" and "b \<in> dom (branches st)"
    by (simp_all add: is_branch_iff)
  then obtain p where p: "branches st b = Some p" by auto
  show ?thesis using assms(1-3,5) b p
    by (simp add: commit_def get_commit_def fmt_def Let_def)
qed

lemma zeros_facts:
  "length zeros = 64" "zeros \<noteq> ''main''" "zeros \<noteq> ''current''" "\<not> is_path zeros"
proof -
  show l: "length zeros = 64" by (simp add: zeros_def)
  from l have "length zeros \<noteq> length ''main''" "length zeros \<noteq> length ''current''"
    by simp_all
  then show "zeros \<noteq> ''main''" "zeros \<noteq> ''current''" by metis+
  show "\<not> is_path zeros" by (simp add: zeros_def is_path_def)
qed

lemma restaged_repo_simps:
  "repo_exists restaged_repo"
  "staging restaged_repo = [''f.txt'' \<mapsto> \<lparr>hash = ''H1'', timestamp = ''t3''\<rparr>]"
  "branches restaged_repo = [''main'' \<mapsto> None, ''current'' \<mapsto> Some zeros]"
  by (simp_all add: restaged_repo_def stage_file_def commit_def Let_def zero_digest_def
      broken_repo_def switch_branch_def get_status_def status_of_def
      fresh_repo_def init_def empty_dir_def)

section \<open>The ancestor chain\<close>

lemma next_commit_Some:
  "next_commit disk st h = Inr p \<longleftrightarrow>
     (\<exists>c. get_commit disk st (Some h) = Inr (CommitDoc c) \<and> parent c = p)"
  by (auto simp: next_commit_def parent_of_def split: sum.splits json_doc.splits)

lemma next_commit_Inl:
  "next_commit disk st h = Inl e \<longleftrightarrow>
     get_commit disk st (Some h) = Inl e
     \<or> get_commit disk st (Some h) = Inr OtherDoc \<and> e = SubscriptError ''parent''"
  by (auto simp: next_commit_def parent_of_def split: sum.splits json_doc.splits)

lemma parent_rel_iff:
  "(p, h) \<in> parent_rel disk st \<longleftrightarrow> h \<noteq> [] \<and> p \<noteq> [] \<and> next_commit disk st h = Inr (Some p)"
  by (auto simp: parent_rel_def next_commit_Some)

lemma reaches_cycle_step:
  assumes "reaches_cycle disk st h"
  shows "\<exists>z. (z, h) \<in> parent_rel disk st \<and> reaches_cycle disk st z"
proof -
  from assms obtain x where xh: "(x, h) \<in> (parent_rel disk st)\<^sup>*"
    and xx: "(x, x) \<in> (parent_rel disk st)\<^sup>+"
    by (auto simp: reaches_cycle_def)
  from xh show ?thesis
  proof (cases rule: rtranclE)
    case base
    with xx obtain z where "(h, z) \<in> (parent_rel disk st)\<^sup>*" "(z, h) \<in> parent_rel disk st"
      by (auto dest: tranclD2)
    with xx base show ?thesis by (auto simp: reaches_cycle_def)
  next
    case (step z)
    with xx show ?thesis by (auto simp: reaches_cycle_def)
  qed
qed

lemma history_loop_cycle_aux:
  assumes "history_loop nxt acc cur = Some r"
  shows "\<forall>disk st y. nxt = next_commit disk st \<longrightarrow> cur = Some y \<longrightarrow> \<not> reaches_cycle disk st y"
  using assms
proof (induct rule: history_loop.raw_induct [rotated 1, consumes 1, case_names step])
  case (step f nxt acc cur r)
  show ?case
  proof (intro allI impI notI)
    fix disk st y
    assume nxt: "nxt = next_commit disk st" and cur: "cur = Some y"
      and cyc: "reaches_cycle disk st y"
    from reaches_cycle_step [OF cyc] obtain z where
      zy: "(z, y) \<in> parent_rel disk st" and z: "reaches_cycle disk st z" by blast
    from zy have y: "y \<noteq> []" "next_commit disk st y = Inr (Some z)"
      by (simp_all add: parent_rel_iff)
    from step(2) y cur nxt have "f nxt (acc @ [y]) (Some z) = Some r" by simp
    from step(1) [OF this] nxt z show False by blast
  qed
qed

lemma history_cycle_never_returns:
  "reaches_cycle disk st y \<Longrightarrow> get_commit_history disk st (Some y) = None"
  unfolding get_commit_history_def
  using history_loop_cycle_aux [of "next_commit disk st" "[]" "Some y"]
  by (cases "history_loop (next_commit disk st) [] (Some y)") auto

lemma history_loop_total:
  assumes "wf r"
    and "\<And>c p. c \<in> A \<Longrightarrow> (p, c) \<in> parent_rel disk st \<Longrightarrow> (p, c) \<in> r \<and> p \<in> A"
    and "h \<in> A"
  shows "\<exists>res. history_loop (next_commit disk st) acc (Some h) = Some res"
  using assms(1,3)
proof (induction h arbitrary: acc rule: wf_induct_rule)
  case (less h)
  show ?case
  proof (cases "h = []")
    case True
    then show ?thesis by (subst history_loop.simps) simp
  next
    case hne: False
    show ?thesis
    proof (cases "next_commit disk st h")
      case (Inl e)
      with hne show ?thesis by (subst history_loop.simps) simp
    next
      case (Inr p)
      show ?thesis
      proof (cases "p = None \<or> p = Some []")
        case True
        with hne Inr show ?thesis
          by (subst history_loop.simps, simp) (subst history_loop.simps, auto)
      next
        case False
        then obtain q where q: "p = Some q" "q \<noteq> []" by auto
        with hne Inr have "(q, h) \<in> parent_rel disk st" by (simp add: parent_rel_iff)
        from assms(2) [OF less.prems this] have "(q, h) \<in> r" "q \<in> A" by simp_all
        from less.IH [OF this, of "acc @ [h]"] hne Inr q show ?thesis
          by (subst history_loop.simps) simp
      qed
    qed
  qed
qed

lemma no_cycle_terminates:
  assumes fin: "finite (parent_rel disk st)" and nc: "\<not> reaches_cycle disk st h"
  shows "\<exists>res. get_commit_history disk st (Some h) = Some res"
proof -
  let ?R = "parent_rel disk st"
  let ?A = "{c. (c, h) \<in> ?R\<^sup>*}"
  let ?r = "{(p, c). (p, c) \<in> ?R \<and> c \<in> ?A}"
  have sub: "?r \<subseteq> ?R" by auto
  then have "finite ?r" using fin by (rule finite_subset)
  moreover have "acyclic ?r"
  proof (rule acyclicI, intro allI notI)
    fix x assume "(x, x) \<in> ?r\<^sup>+"
    then have xx: "(x, x) \<in> ?R\<^sup>+" using sub by (meson trancl_mono)
    from \<open>(x, x) \<in> ?r\<^sup>+\<close> obtain z where "(z, x) \<in> ?r" by (auto dest: tranclD2)
    then have "(x, h) \<in> ?R\<^sup>*" by simp
    with xx nc show False by (auto simp: reaches_cycle_def)
  qed
  ultimately have "wf ?r" by (rule finite_acyclic_wf)
  moreover have "\<And>c p. c \<in> ?A \<Longrightarrow> (p, c) \<in> ?R \<Longrightarrow> (p, c) \<in> ?r \<and> p \<in> ?A"
    by (auto intro: converse_rtrancl_into_rtrancl)
  moreover have "h \<in> ?A" by simp
  ultimately show ?thesis
    unfolding get_commit_history_def by (rule history_loop_total)
qed

lemma history_loop_chain:
  "chain disk st cur ys \<Longrightarrow> history_loop (next_commit disk st) acc cur = Some (Inr (acc @ ys))"
proof (induction arbitrary: acc rule: chain.induct)
  case (chain_None disk st)
  show ?case by (subst history_loop.simps) simp
next
  case (chain_empty disk st)
  show ?case by (subst history_loop.simps) simp
next
  case (chain_step h disk st c ys)
  from chain_step.hyps(2) have "next_commit disk st h = Inr (parent c)"
    by (auto simp: next_commit_Some)
  with chain_step.IH [of "acc @ [h]"] chain_step.hyps(1) show ?case
    by (subst history_loop.simps) simp
qed

lemma history_loop_breaks:
  "breaks disk st cur ys e \<Longrightarrow> history_loop (next_commit disk st) acc cur = Some (Inl e)"
proof (induction arbitrary: acc rule: breaks.induct)
  case (breaks_missing h disk st e)
  then have "next_commit disk st h = Inl e" by (simp add: next_commit_Inl)
  with breaks_missing(1) show ?case by (subst history_loop.simps) simp
next
  case (breaks_other h disk st)
  then have "next_commit disk st h = Inl (SubscriptError ''parent'')"
    by (simp add: next_commit_Inl)
  with breaks_other(1) show ?case by (subst history_loop.simps) simp
next
  case (breaks_step h disk st c ys e)
  from breaks_step.hyps(2) have "next_commit disk st h = Inr (parent c)"
    by (auto simp: next_commit_Some)
  with breaks_step.IH [of "acc @ [h]"] breaks_step.hyps(1) show ?case
    by (subst history_loop.simps) simp
qed

lemma history_loop_result:
  assumes "history_loop nxt acc cur = Some r"
  shows "\<forall>disk st. nxt = next_commit disk st \<longrightarrow>
           (\<forall>hs. r = Inr hs \<longrightarrow> (\<exists>ys. hs = acc @ ys \<and> chain disk st cur ys))
         \<and> (\<forall>e. r = Inl e \<longrightarrow> (\<exists>ys. breaks disk st cur ys e))"
  using assms
proof (induct rule: history_loop.raw_induct [rotated 1, consumes 1, case_names step])
  case (step f nxt acc cur r)
  show ?case
  proof (intro allI impI)
    fix disk st assume nxt: "nxt = next_commit disk st"
    show "(\<forall>hs. r = Inr hs \<longrightarrow> (\<exists>ys. hs = acc @ ys \<and> chain disk st cur ys))
         \<and> (\<forall>e. r = Inl e \<longrightarrow> (\<exists>ys. breaks disk st cur ys e))"
    proof (cases cur)
      case None
      with step(2) show ?thesis by (auto intro: chain.intros)
    next
      case (Some h)
      show ?thesis
      proof (cases "h = []")
        case True
        with Some step(2) show ?thesis by (auto intro: chain.intros)
      next
        case hne: False
        show ?thesis
        proof (cases "next_commit disk st h")
          case (Inl e)
          with hne Some step(2) nxt have r: "r = Inl e" by simp
          from Inl hne have "breaks disk st (Some h) [h] e"
            by (auto simp: next_commit_Inl intro: breaks.intros)
          with r Some show ?thesis by auto
        next
          case (Inr p)
          then obtain c where c: "get_commit disk st (Some h) = Inr (CommitDoc c)" "parent c = p"
            by (auto simp: next_commit_Some)
          from Inr hne Some step(2) nxt have f: "f nxt (acc @ [h]) p = Some r" by simp
          from step(1) [OF f] nxt have
            ih: "(\<forall>hs. r = Inr hs \<longrightarrow> (\<exists>ys. hs = (acc @ [h]) @ ys \<and> chain disk st p ys))
               \<and> (\<forall>e. r = Inl e \<longrightarrow> (\<exists>ys. breaks disk st p ys e))"
            by blast
          show ?thesis
          proof (intro conjI allI impI)
            fix hs assume "r = Inr hs"
            with ih obtain ys where "hs = (acc @ [h]) @ ys" "chain disk st p ys" by blast
            with hne c Some show "\<exists>ys. hs = acc @ ys \<and> chain disk st cur ys"
              by (auto intro: chain.intros)
          next
            fix e assume "r = Inl e"
            with ih obtain ys where "breaks disk st p ys e" by blast
            with hne c Some show "\<exists>ys. breaks disk st cur ys e"
              by (auto intro: breaks.intros)
          qed
        qed
      qed
    qed
  qed
qed

lemma get_commit_history_chain:
  "get_commit_history disk st h = Some (Inr hs) \<longleftrightarrow> chain disk st h hs"
  using history_loop_result [of "next_commit disk st" "[]" h "Inr hs"]
    history_loop_chain [of disk st h hs "[]"]
  by (auto simp: get_commit_history_def)

lemma get_commit_history_breaks:
  "get_commit_history disk st h = Some (Inl e) \<longleftrightarrow> (\<exists>hs. breaks disk st h hs e)"
  using history_loop_result [of "next_commit disk st" "[]" h "Inl e"]
    history_loop_breaks [of disk st h _ e "[]"]
  by (auto simp: get_commit_history_def)

lemma get_commit_history_None:
  assumes "finite (parent_rel disk st)"
  shows "get_commit_history disk st h = None \<longleftrightarrow> (\<exists>y. h = Some y \<and> reaches_cycle disk st y)"
proof
  assume n: "get_commit_history disk st h = None"
  show "\<exists>y. h = Some y \<and> reaches_cycle disk st y"
  proof (cases h)
    case None
    with n show ?thesis
      unfolding get_commit_history_def by (subst (asm) history_loop.simps) simp
  next
    case (Some y)
    with n no_cycle_terminates [OF assms, of y] show ?thesis by auto
  qed
next
  assume "\<exists>y. h = Some y \<and> reaches_cycle disk st y"
  then show "get_commit_history disk st h = None"
    by (auto dest: history_cycle_never_returns)
qed

lemma breaks_error:
  "breaks disk st h hs e \<Longrightarrow>
     hs \<noteq> [] \<and> (e = CommitNotFoundError (last hs) \<and> get_commit disk st (Some (last hs)) = Inl e
        \<or> e = SubscriptError ''parent'' \<and> get_commit disk st (Some (last hs)) = Inr OtherDoc)"
proof (induction rule: breaks.induct)
  case (breaks_missing h disk st e)
  then show ?case by (auto simp: get_commit_def fmt_def split: option.splits)
next
  case (breaks_other h disk st)
  then show ?case by simp
next
  case (breaks_step h disk st c ys e)
  then show ?case by auto
qed

lemma chain_det: "chain disk st cur ys \<Longrightarrow> chain disk st cur zs \<Longrightarrow> ys = zs"
proof (induction arbitrary: zs rule: chain.induct)
  case (chain_step h disk st c ys)
  from chain_step.prems chain_step.hyps show ?case
    by (cases rule: chain.cases) (auto dest: chain_step.IH)
qed (auto elim: chain.cases)


lemma chain_length: "chain disk st cur ys \<Longrightarrow> chain disk st cur zs \<Longrightarrow> length ys = length zs"
  by (drule (1) chain_det) simp






section \<open>The traversal on the example stores\<close>

lemma get_commit_plain:
  "\<not> is_path (fmt h) \<Longrightarrow>
     get_commit disk st h =
       (case commits st (fmt h) of None \<Rightarrow> Inl (CommitNotFoundError (fmt h))
        | Some c \<Rightarrow> Inr (CommitDoc c))"
  by (simp add: get_commit_def split: option.splits)

lemma plain_names:
  "\<not> is_path ''C1''" "\<not> is_path ''C2''" "\<not> is_path ''C3''" "\<not> is_path ''C9''"
  "\<not> is_path ''X''" "\<not> is_path ''None''" "\<not> is_path ''main''"
  by (simp_all add: is_path_def)

lemma forked_repo_commits:
  "get_commit disk forked_repo (Some ''C1'') = Inr (CommitDoc \<lparr>message = ''first'', author = ''u'',
     created = ''t1'', parent = None, changes = file_entry ''H1''\<rparr>)"
  "get_commit disk forked_repo (Some ''C2'') = Inr (CommitDoc \<lparr>message = ''second'', author = ''u'',
     created = ''t2'', parent = Some ''C1'', changes = file_entry ''H2''\<rparr>)"
  "get_commit disk forked_repo (Some ''C3'') = Inr (CommitDoc \<lparr>message = ''third'', author = ''u'',
     created = ''t3'', parent = Some ''C1'', changes = file_entry ''H3''\<rparr>)"
  by (simp_all add: get_commit_plain fmt_def plain_names forked_repo_simps)


lemma forked_repo_chains:
  "chain disk forked_repo (Some ''C2'') [''C2'', ''C1'']"
  "chain disk forked_repo (Some ''C3'') [''C3'', ''C1'']"
  by (rule chain.intros, simp, rule forked_repo_commits, simp,
      rule chain.intros, simp, rule forked_repo_commits, simp, rule chain.intros)+

lemma forked_repo_histories:
  "get_commit_history disk forked_repo (Some ''C2'') = Some (Inr [''C2'', ''C1''])"
  "get_commit_history disk forked_repo (Some ''C3'') = Some (Inr [''C3'', ''C1''])"
  by (simp_all add: get_commit_history_chain forked_repo_chains)


lemma no_disk_parent_rel:
  "(p, h) \<in> parent_rel no_disk st \<longleftrightarrow>
     h \<noteq> [] \<and> p \<noteq> [] \<and> \<not> is_path h \<and> (\<exists>c. commits st h = Some c \<and> parent c = Some p)"
  by (auto simp: parent_rel_def get_commit_def no_disk_def fmt_def split: option.splits if_splits)

lemma forked_repo_parent_rel:
  "parent_rel no_disk forked_repo = {(''C1'', ''C2''), (''C1'', ''C3'')}"
  by (auto simp: no_disk_parent_rel forked_repo_def is_path_def split: if_splits)

lemma looped_repo_parent_rel: "parent_rel no_disk looped_repo = {(''X'', ''X'')}"
  by (auto simp: no_disk_parent_rel looped_repo_def is_path_def split: if_splits)

lemma dangling_repo_parent_rel: "parent_rel no_disk dangling_repo = {(''C9'', ''C2'')}"
  by (auto simp: no_disk_parent_rel dangling_repo_def is_path_def split: if_splits)

lemma looped_repo_cycle: "reaches_cycle no_disk looped_repo ''X''"
  unfolding reaches_cycle_def looped_repo_parent_rel by (rule exI [of _ "''X''"]) simp

lemma dangling_repo_breaks:
  "breaks no_disk dangling_repo (Some ''C2'') [''C2'', ''C9''] (CommitNotFoundError ''C9'')"
  by (rule breaks.intros, simp, simp add: get_commit_plain fmt_def plain_names dangling_repo_def,
      simp, rule breaks.intros, simp,
      simp add: get_commit_plain fmt_def plain_names dangling_repo_def)

text \<open>
  Claim C3, as the code has it. The loop has neither a cap nor a set of visited ids. In a
  finite store the traversal from \<open>h\<close> has no result exactly when the parent links lead
  from \<open>h\<close> into a cycle, wherever else the store may have one: it then runs forever, and no
  error is reported. It returns a list exactly when the links from \<open>h\<close> end at a null or
  empty parent, and the list is then the chain, \<open>h\<close> first and each commit followed by its
  parent. It fails exactly when the links lead to a name that has no file, with the
  commit-not-found error for that name, or to a file that is no commit record, with
  Python's error for the subscript.
\<close>

theorem history_terminates_iff_acyclic:
  assumes "finite (parent_rel disk st)"
  shows "(get_commit_history disk st h = None \<longleftrightarrow> (\<exists>y. h = Some y \<and> reaches_cycle disk st y))
       \<and> (\<forall>hs. get_commit_history disk st h = Some (Inr hs) \<longleftrightarrow> chain disk st h hs)
       \<and> (\<forall>e. get_commit_history disk st h = Some (Inl e) \<longleftrightarrow> (\<exists>hs. breaks disk st h hs e))
       \<and> (\<forall>hs e. breaks disk st h hs e \<longrightarrow> hs \<noteq> [] \<and>
            (e = CommitNotFoundError (last hs) \<and> get_commit disk st (Some (last hs)) = Inl e
             \<or> e = SubscriptError ''parent'' \<and> get_commit disk st (Some (last hs)) = Inr OtherDoc))"
  using get_commit_history_None [OF assms, of h] get_commit_history_chain [of disk st h]
    get_commit_history_breaks [of disk st h] breaks_error [of disk st h]
  by blast

theorem history_terminates_iff_acyclic_witness:
  "finite (parent_rel no_disk forked_repo)
   \<and> chain no_disk forked_repo (Some ''C2'') [''C2'', ''C1'']
   \<and> get_commit_history no_disk forked_repo (Some ''C2'') = Some (Inr [''C2'', ''C1''])
   \<and> finite (parent_rel no_disk dangling_repo)
   \<and> breaks no_disk dangling_repo (Some ''C2'') [''C2'', ''C9''] (CommitNotFoundError ''C9'')
   \<and> get_commit_history no_disk dangling_repo (Some ''C2'') = Some (Inl (CommitNotFoundError ''C9''))
   \<and> finite (parent_rel no_disk looped_repo)
   \<and> reaches_cycle no_disk looped_repo ''X''
   \<and> get_commit_history no_disk looped_repo (Some ''X'') = None"
proof -
  have f: "finite (parent_rel no_disk forked_repo)" "finite (parent_rel no_disk dangling_repo)"
    "finite (parent_rel no_disk looped_repo)"
    by (simp_all add: forked_repo_parent_rel dangling_repo_parent_rel looped_repo_parent_rel)
  from history_terminates_iff_acyclic [OF f(1), of "Some ''C2''"] forked_repo_chains(1)
  have 1: "get_commit_history no_disk forked_repo (Some ''C2'') = Some (Inr [''C2'', ''C1''])"
    by blast
  from history_terminates_iff_acyclic [OF f(2), of "Some ''C2''"] dangling_repo_breaks
  have 2: "get_commit_history no_disk dangling_repo (Some ''C2'') = Some (Inl (CommitNotFoundError ''C9''))"
    by blast
  from history_terminates_iff_acyclic [OF f(3), of "Some ''X''"] looped_repo_cycle
  have 3: "get_commit_history no_disk looped_repo (Some ''X'') = None"
    by blast
  from f 1 2 3 forked_repo_chains(1) dangling_repo_breaks looped_repo_cycle show ?thesis by simp
qed

text \<open>
  Claim C3 as stated fails: in a store where \<open>''X''\<close> is its own parent, the traversal from
  \<open>''X''\<close> has no result.
\<close>

theorem history_loops_on_cycle:
  "get_commit_history no_disk looped_repo (Some ''X'') = None"
  using looped_repo_cycle by (rule history_cycle_never_returns)

subsection \<open>The common ancestor\<close>



section \<open>Merging\<close>



lemma forked_repo_merge:
  "merge_branch disk ''dev'' forked_repo =
     Some (Inr \<lparr>conflicts = {''f.txt''}, merged = {}\<rparr>, forked_repo)"
proof -
  have "merge_analysis disk forked_repo (Some ''C2'') (Some ''main'')
        = Some (Inr \<lparr>conflicts = {''f.txt''}, merged = {}\<rparr>)"
    by (auto simp: merge_analysis_def forked_repo_histories forked_repo_simps forked_repo_commits
        changes_of_def
        find_common_ancestor_def compare_files_def is_conflict_def digest_at_def file_entry_def)
  then show ?thesis
    by (simp add: merge_branch_check_order forked_repo_simps clean_empty_staging)
qed


text \<open>
  Claim C8. A call of \<^verbatim>\<open>merge_branch\<close> that returns leaves the state as it was: staging
  table, branch table and commit store are the same, and no commit is added.
\<close>

theorem merge_branch_read_only:
  "merge_branch disk n st = Some (r, st') \<Longrightarrow>
     st' = st \<and> staging st' = staging st \<and> branches st' = branches st \<and> commits st' = commits st"
  by (auto simp: merge_branch_check_order split: if_splits)

theorem merge_branch_read_only_witness:
  "\<exists>res st'. merge_branch no_disk ''dev'' forked_repo = Some (Inr res, st') \<and>
     st' = forked_repo \<and> staging st' = staging forked_repo \<and> branches st' = branches forked_repo
     \<and> commits st' = commits forked_repo"
  using merge_branch_read_only [OF forked_repo_merge] forked_repo_merge by simp

text \<open>
  Claim C5, at the name of the marker. No branch is called \<open>current\<close>, but the key is in
  the branch table, so \<^verbatim>\<open>merge_branch("current")\<close> passes the test for an unknown branch;
  in a fresh repository it goes on to look up \<open>main\<close>, the marker's value, as a commit.
\<close>

theorem merge_current_marker:
  "repo_exists fresh_repo \<and> \<not> is_branch fresh_repo ''current''
   \<and> merge_branch disk ''current'' fresh_repo = Some (Inl (CommitNotFoundError ''main''), fresh_repo)"
  by (simp add: merge_branch_check_order fresh_repo_simps is_branch_iff clean_empty_staging
      merge_analysis_def get_commit_plain plain_names fmt_def)

theorem merge_current_marker_witness:
  "get_status fresh_repo = Inr \<lparr>staged = {}, modified = {}, untracked = {''.svcignore''}\<rparr>
   \<and> list_branches fresh_repo = Inr [''main'' \<mapsto> None]
   \<and> merge_branch no_disk ''current'' fresh_repo = Some (Inl (CommitNotFoundError ''main''), fresh_repo)"
proof -
  have "list_branches fresh_repo = Inr [''main'' \<mapsto> None]"
    by (auto simp: list_branches_def fresh_repo_simps)
  with merge_current_marker [of no_disk] fresh_repo_status show ?thesis by simp
qed

section \<open>Reachable states\<close>

lemma reachable_invariant:
  "reachable st \<Longrightarrow> repo_exists st \<Longrightarrow>
     (\<exists>v. branches st ''current'' = Some (Some v)) \<and> (\<forall>k \<in> dom (commits st). length k = 64)"
proof (induction rule: reachable.induct)
  case (r_start st)
  then show ?case by simp
next
  case (r_init st d r)
  then show ?case by (auto simp: init_def split: if_splits)
next
  case (r_edit st t i)
  then show ?case by simp
next
  case (r_stage st now p)
  then show ?case by (auto simp: stage_file_def split: if_splits option.splits node.splits)
next
  case (r_commit st H now user msg a)
  then show ?case
    by (auto simp: commit_def Let_def split: if_splits option.splits)
next
  case (r_create st n)
  then show ?case by (auto simp: create_branch_def split: if_splits option.splits)
next
  case (r_switch st n)
  then show ?case
    by (auto simp: switch_branch_def split: if_splits option.splits sum.splits)
next
  case (r_merge st disk n res st')
  from r_merge.hyps(2) have "st' = st"
    by (auto simp: merge_branch_check_order split: if_splits)
  with r_merge show ?case by simp
qed

lemma reachable_current_key:
  "reachable st \<Longrightarrow> repo_exists st \<Longrightarrow> \<exists>v. branches st ''current'' = Some (Some v)"
  by (simp add: reachable_invariant)

lemma reachable_no_None_commit:
  "reachable st \<Longrightarrow> repo_exists st \<Longrightarrow> commits st ''None'' = None"
proof (rule ccontr)
  assume r: "reachable st" "repo_exists st" and "commits st ''None'' \<noteq> None"
  then have "''None'' \<in> dom (commits st)" by auto
  with reachable_invariant [OF r] have "length ''None'' = 64" by blast
  then show False by simp
qed

lemma reachable_fresh_repo: "reachable fresh_repo"
  unfolding fresh_repo_def by (rule r_init, rule r_start) (simp add: empty_dir_def)

lemma reachable_two_branch_repo: "reachable two_branch_repo"
  unfolding two_branch_repo_def by (rule r_create) (rule reachable_fresh_repo)

lemma reachable_staged_repo: "reachable staged_repo"
proof -
  have "reachable (fresh_repo\<lparr>tree := [''f.txt'' \<mapsto> RegularFile ''H1''], ignored := ignored fresh_repo\<rparr>)"
    by (rule r_edit) (rule reachable_fresh_repo)
  then have "reachable (fresh_repo\<lparr>tree := [''f.txt'' \<mapsto> RegularFile ''H1'']\<rparr>)" by simp
  then show ?thesis unfolding staged_repo_def by (rule r_stage)
qed

lemma reachable_dirty_repo: "reachable dirty_repo"
  unfolding dirty_repo_def by (rule r_create) (rule reachable_staged_repo)

text \<open>
  Claim C9. In every initialized repository \<^verbatim>\<open>create_branch("current")\<close> fails with the
  branch-exists error, though no branch has that name: the marker holds the key. In no state
  at all does the call succeed.
\<close>

theorem create_branch_current_refused:
  "reachable st \<Longrightarrow> repo_exists st \<Longrightarrow>
     create_branch ''current'' st = (Inl (BranchExistsError ''current''), st)
     \<and> \<not> is_branch st ''current''
     \<and> (\<forall>s. \<exists>e. create_branch ''current'' s = (Inl e, s))"
proof (intro conjI allI)
  assume "reachable st" "repo_exists st"
  then show "create_branch ''current'' st = (Inl (BranchExistsError ''current''), st)"
    using reachable_current_key [of st] by (auto simp: create_branch_def)
next
  show "\<not> is_branch st ''current''" by (simp add: is_branch_iff)
next
  fix s show "\<exists>e. create_branch ''current'' s = (Inl e, s)"
    by (auto simp: create_branch_def split: option.splits)
qed

theorem create_branch_current_refused_witness:
  "reachable fresh_repo \<and> repo_exists fresh_repo
   \<and> create_branch ''current'' fresh_repo = (Inl (BranchExistsError ''current''), fresh_repo)
   \<and> \<not> is_branch fresh_repo ''current''"
  using create_branch_current_refused [OF reachable_fresh_repo] reachable_fresh_repo
  by (simp add: fresh_repo_simps)

text \<open>
  Claim C10, with the clean tree it needs. In an initialized repository with a clean tree,
  where the source is a branch other than the current one, and its head or the current
  branch's head is null, \<^verbatim>\<open>merge_branch\<close> fails with the commit-not-found error, for
  the name \<open>None\<close> when the source's head is null, and leaves the state as it was.
\<close>

theorem merge_null_head:
  assumes "reachable st" and "repo_exists st" and "is_branch st n"
    and "branches st ''current'' = Some (Some b)" and "b \<noteq> n" and "\<not> uncommitted st"
    and "branches st n = Some None \<or> branches st b = Some None"
  shows "\<exists>x. merge_branch disk n st = Some (Inl (CommitNotFoundError x), st)
            \<and> (branches st n = Some None \<longrightarrow> x = ''None'')"
proof -
  from assms(3) obtain s_head where s: "branches st n = Some s_head"
    by (auto simp: is_branch_iff)
  have none: "commits st ''None'' = None"
    using assms(1,2) by (rule reachable_no_None_commit)
  have m: "merge_branch disk n st = map_option (\<lambda>r. (r, st)) (merge_analysis disk st s_head (Some b))"
    using assms(2,4,5,6) s by (auto simp: merge_branch_check_order)
  have gn: "get_commit disk st None = Inl (CommitNotFoundError ''None'')"
    using none by (simp add: get_commit_plain fmt_def plain_names)
  show ?thesis
  proof (cases "get_commit disk st s_head")
    case (Inl e)
    then have "e = CommitNotFoundError (fmt s_head)"
      by (auto simp: get_commit_def split: option.splits)
    with Inl m s show ?thesis by (auto simp: merge_analysis_def fmt_def)
  next
    case (Inr S)
    with gn have "s_head \<noteq> None" by (cases s_head) auto
    with assms(7) s have "branches st b = Some None" by auto
    with Inr m gn s \<open>s_head \<noteq> None\<close> show ?thesis
      by (auto simp: merge_analysis_def)
  qed
qed

theorem merge_null_head_witness:
  "reachable two_branch_repo \<and> repo_exists two_branch_repo \<and> is_branch two_branch_repo ''dev''
   \<and> branches two_branch_repo ''current'' = Some (Some ''main'') \<and> ''main'' \<noteq> ''dev''
   \<and> \<not> uncommitted two_branch_repo \<and> branches two_branch_repo ''dev'' = Some None
   \<and> merge_branch no_disk ''dev'' two_branch_repo = Some (Inl (CommitNotFoundError ''None''), two_branch_repo)"
proof -
  have h: "reachable two_branch_repo" "repo_exists two_branch_repo" "is_branch two_branch_repo ''dev''"
    "branches two_branch_repo ''current'' = Some (Some ''main'')" "''main'' \<noteq> ''dev''"
    "\<not> uncommitted two_branch_repo"
    "branches two_branch_repo ''dev'' = Some None \<or> branches two_branch_repo ''main'' = Some None"
    by (simp_all add: reachable_two_branch_repo two_branch_repo_simps is_branch_iff clean_empty_staging)
  from merge_null_head [OF h] h show ?thesis
    by (auto simp: two_branch_repo_simps)
qed

text \<open>
  Claim C10 as stated fails on a tree that is not clean: with a file staged, the merge of a
  branch with a null head fails with the error for uncommitted changes.
\<close>

theorem merge_null_head_dirty:
  "reachable dirty_repo \<and> repo_exists dirty_repo \<and> is_branch dirty_repo ''dev''
   \<and> branches dirty_repo ''current'' = Some (Some ''main'')
   \<and> branches dirty_repo ''dev'' = Some None \<and> branches dirty_repo ''main'' = Some None
   \<and> merge_branch no_disk ''dev'' dirty_repo =
       Some (Inl (DirtyWorkingTreeError ''Cannot merge with uncommitted changes''), dirty_repo)"
  using reachable_dirty_repo
  by (simp add: merge_branch_check_order uncommitted_iff is_branch_iff dirty_repo_simps)

subsection \<open>The marker's invariant\<close>

text \<open>Every operation keeps the marker on a branch, but for \<^verbatim>\<open>switch_branch\<close> called with
  the marker's own key.\<close>

lemma current_ok_init: "\<not> repo_exists st \<Longrightarrow> current_ok (snd (init d r st))"
  by (simp add: current_ok_iff init_def)

lemma current_ok_stage_file: "current_ok st \<Longrightarrow> current_ok (snd (stage_file now p st))"
  by (auto simp: current_ok_iff stage_file_def split: option.splits node.splits)

lemma current_ok_commit: "current_ok st \<Longrightarrow> current_ok (snd (commit H now user msg a st))"
  by (auto simp: current_ok_iff commit_def Let_def split: option.splits)

lemma current_ok_create_branch: "current_ok st \<Longrightarrow> current_ok (snd (create_branch n st))"
  by (auto simp: current_ok_iff create_branch_def split: option.splits)

lemma current_ok_switch_branch:
  "current_ok st \<Longrightarrow> n \<noteq> ''current'' \<Longrightarrow> current_ok (snd (switch_branch n st))"
  by (auto simp: current_ok_iff switch_branch_def split: option.splits sum.splits)

lemma current_ok_merge_branch:
  "current_ok st \<Longrightarrow> merge_branch disk n st = Some (r, st') \<Longrightarrow> current_ok st'"
  by (auto simp: merge_branch_check_order split: if_splits)

lemma broken_repo_eq:
  "switch_branch ''current'' fresh_repo =
     (Inr (), fresh_repo\<lparr>branches := [''main'' \<mapsto> None, ''current'' \<mapsto> Some ''current'']\<rparr>)"
proof -
  have "get_status fresh_repo = Inr s \<Longrightarrow> modified s = {} \<and> staged s = {}" for s
    using clean_empty_staging [of fresh_repo] by (simp add: uncommitted_def fresh_repo_simps)
  then show ?thesis
    by (auto simp: switch_branch_def fresh_repo_simps get_status_def)
qed

text \<open>
  Claim C2, at \<^verbatim>\<open>switch_branch("current")\<close> in a fresh repository: the call succeeds,
  and the marker then holds \<open>current\<close>, which is no branch. The next commit records
  \<open>current\<close> as its parent and leaves its own id in the marker.
\<close>

theorem switch_to_marker_breaks_invariant:
  "reachable fresh_repo \<and> current_ok fresh_repo
   \<and> fst (switch_branch ''current'' fresh_repo) = Inr ()
   \<and> reachable broken_repo
   \<and> branches broken_repo ''current'' = Some (Some ''current'')
   \<and> \<not> is_branch broken_repo ''current''
   \<and> \<not> current_ok broken_repo"
proof -
  have "reachable broken_repo" unfolding broken_repo_def by (rule r_switch) (rule reachable_fresh_repo)
  then show ?thesis
    by (simp add: reachable_fresh_repo current_ok_def is_branch_iff fresh_repo_simps
        broken_repo_def broken_repo_eq)
qed

theorem switch_to_marker_breaks_invariant_witness:
  "get_status fresh_repo = Inr \<lparr>staged = {}, modified = {}, untracked = {''.svcignore''}\<rparr>
   \<and> switch_branch ''current'' fresh_repo = (Inr (), broken_repo)
   \<and> \<not> current_ok broken_repo"
  using switch_to_marker_breaks_invariant fresh_repo_status
  by (simp add: broken_repo_def broken_repo_eq)

lemma commit_after_switch_to_marker:
  assumes "s \<noteq> Map.empty"
  shows "branches (snd (commit H now user msg a (broken_repo\<lparr>staging := s\<rparr>))) ''current'' =
           Some (Some (H \<lparr>message = msg, author = author_or a user, created = now,
                          parent = Some ''current'', changes = s\<rparr>))"
  using assms
  by (simp add: commit_def Let_def broken_repo_def broken_repo_eq fresh_repo_simps)

subsection \<open>Committing after the marker has left the branches\<close>

lemma reachable_restaged_repo: "reachable restaged_repo"
proof -
  have b: "reachable broken_repo"
    unfolding broken_repo_def by (rule r_switch) (rule reachable_fresh_repo)
  have "reachable (broken_repo\<lparr>tree := [''f.txt'' \<mapsto> RegularFile ''H1''], ignored := ignored broken_repo\<rparr>)"
    using b by (rule r_edit)
  then have "reachable (broken_repo\<lparr>tree := [''f.txt'' \<mapsto> RegularFile ''H1'']\<rparr>)" by simp
  then have "reachable (snd (stage_file ''t1'' ''f.txt''
           (broken_repo\<lparr>tree := [''f.txt'' \<mapsto> RegularFile ''H1'']\<rparr>)))"
    by (rule r_stage)
  then have "reachable (snd (commit zero_digest ''t2'' None ''first'' None
         (snd (stage_file ''t1'' ''f.txt''
           (broken_repo\<lparr>tree := [''f.txt'' \<mapsto> RegularFile ''H1'']\<rparr>)))))"
    by (rule r_commit) (simp add: zero_digest_def zeros_facts)
  then show ?thesis unfolding restaged_repo_def by (rule r_stage)
qed

text \<open>
  Claim C6, in the initialized repository that \<^verbatim>\<open>init\<close>, \<^verbatim>\<open>switch_branch("current")\<close>,
  a staged file, a commit and the file staged again leave: the staging table is not empty,
  and \<^verbatim>\<open>commit\<close> fails with a \<open>KeyError\<close>, for the marker holds the id of the first
  commit, which is no key of the branch table.
\<close>

theorem commit_fails_after_marker_switch:
  "reachable restaged_repo \<and> repo_exists restaged_repo \<and> staging restaged_repo \<noteq> Map.empty
   \<and> commit H now user msg a restaged_repo = (Inl (KeyError (Some zeros)), restaged_repo)"
  using reachable_restaged_repo
  by (simp add: commit_def restaged_repo_simps zeros_facts)

end
